theory Spec2Isabelle
  imports Complex_Main
begin

section \<open>Geometry kernel: \<open>overlapping\<close>\<close>

text \<open>
  The router of \<^verbatim>\<open>pathfinder_final.py\<close> works on 2-element numpy arrays.
  A coordinate is modelled as a real number, so all arithmetic is exact; a point is a
  pair of coordinates.
\<close>

type_synonym point = "real \<times> real"

text \<open>
  Lines 40 to 45: the branch for exactly one vertical segment, after the exchange of
  names of lines 36 to 39, so that line 0 is the vertical one.
\<close>

definition one_vertical ::
  "real \<Rightarrow> real \<Rightarrow> real \<Rightarrow> real \<Rightarrow> real \<Rightarrow> real \<Rightarrow> real \<Rightarrow> bool" where
  "one_vertical x0_start y0_start y0_end x1_start y1_start x1_end y1_end =
     (let m = (y1_end - y1_start) / (x1_end - x1_start);
          b = (x1_end * y1_start - x1_start * y1_end) / (x1_end - x1_start)
      in if min x1_start x1_end \<le> x0_start \<and> x0_start \<le> max x1_start x1_end
         then (if min y0_start y0_end \<le> m * x0_start + b \<and>
                  m * x0_start + b \<le> max y0_start y0_end
               then True else False)
         else False)"

text \<open>Lines 48 to 69: neither segment is vertical.\<close>

definition neither_vertical ::
  "real \<Rightarrow> real \<Rightarrow> real \<Rightarrow> real \<Rightarrow> real \<Rightarrow> real \<Rightarrow> real \<Rightarrow> real \<Rightarrow> bool" where
  "neither_vertical x0_start y0_start x0_end y0_end x1_start y1_start x1_end y1_end =
     (let b0 = (y0_start * x0_end - y0_end * x0_start) / (x0_end - x0_start);
          b1 = (y1_start * x1_end - y1_end * x1_start) / (x1_end - x1_start)
      in if (x1_end - x1_start) * (y0_end - y0_start) = (x0_end - x0_start) * (y1_end - y1_start)
         then (if b0 = b1
               then \<not> (min x0_start x0_end > max x1_start x1_end \<or>
                       min x1_start x1_end > max x0_start x1_end)
               else False)
         else (let m0 = (y0_end - y0_start) / (x0_end - x0_start);
                   m1 = (y1_end - y1_start) / (x1_end - x1_start);
                   x_intersect = (b1 - b0) / (m0 - m1);
                   y_intersect = m0 * x_intersect + b0
               in if min x0_start x0_end \<le> x_intersect \<and> x_intersect \<le> max x0_start x0_end
                  then (if min y0_start y0_end \<le> y_intersect \<and> y_intersect \<le> max y0_start y0_end
                        then (if min x1_start x1_end \<le> x_intersect \<and> x_intersect \<le> max x1_start x1_end
                              then (if min y1_start y1_end \<le> y_intersect \<and>
                                       y_intersect \<le> max y1_start y1_end
                                    then True else False)
                              else False)
                        else False)
                  else False))"

text \<open>Lines 17 to 69.\<close>

definition overlapping :: "point \<Rightarrow> point \<Rightarrow> point \<Rightarrow> point \<Rightarrow> bool" where
  "overlapping a b c d =
     (case a of (x0_start, y0_start) \<Rightarrow>
      case b of (x0_end, y0_end) \<Rightarrow>
      case c of (x1_start, y1_start) \<Rightarrow>
      case d of (x1_end, y1_end) \<Rightarrow>
        if x0_start = x0_end \<and> x1_start = x1_end
        then (if x0_end = x1_start
              then \<not> (min y0_start y0_end > max y1_start y1_end \<or>
                      min y1_start y1_end > max y0_start y1_end)
              else False)
        else if x0_start = x0_end \<or> x1_start = x1_end
        then (if x1_start = x1_end
              then one_vertical x1_start y1_start y1_end x0_start y0_start x0_end y0_end
              else one_vertical x0_start y0_start y0_end x1_start y1_start x1_end y1_end)
        else neither_vertical x0_start y0_start x0_end y0_end x1_start y1_start x1_end y1_end)"

subsection \<open>The same function with every division tracked\<close>





text \<open>
  What the specification asks of two closed intervals, each given by its two end
  values in any order: they have a common point.
\<close>

definition intervals_meet :: "real \<Rightarrow> real \<Rightarrow> real \<Rightarrow> real \<Rightarrow> bool" where
  "intervals_meet u1 u2 v1 v2 = (max (min u1 u2) (min v1 v2) \<le> min (max u1 u2) (max v1 v2))"

section \<open>Obstacle index: \<open>no_obstacles\<close>\<close>

text \<open>
  \<open>self.design.components\<close> is taken as the list of the bounding boxes
  \<open>(xmin, ymin, xmax, ymax)\<close> that \<open>qgeometry_bounds\<close> returns, in the order of
  iteration. A segment \<open>[s0, s1]\<close> is passed as its two end points.
\<close>

type_synonym bounds = "real \<times> real \<times> real \<times> real"

text \<open>Lines 107 to 113: the test of one bounding box against the segment.\<close>

definition box_hit :: "bounds \<Rightarrow> point \<Rightarrow> point \<Rightarrow> bool" where
  "box_hit bb s0 s1 =
     (case bb of (xmin, ymin, xmax, ymax) \<Rightarrow>
        (let p = (xmin, ymin); q = (xmin, ymax); r = (xmax, ymin); s = (xmax, ymax)
         in overlapping s0 s1 p q \<or> overlapping s0 s1 p r \<or>
            overlapping s0 s1 r s \<or> overlapping s0 s1 q s))"

text \<open>Lines 97 to 117.\<close>

fun no_obstacles :: "bounds list \<Rightarrow> point \<Rightarrow> point \<Rightarrow> bool" where
  "no_obstacles [] s0 s1 = True"
| "no_obstacles (bb # components) s0 s1 =
     (if box_hit bb s0 s1 then False else no_obstacles components s0 s1)"

section \<open>Direct and elbow router: \<open>getpts_simple\<close>\<close>

definition vadd :: "point \<Rightarrow> point \<Rightarrow> point" where
  "vadd u v = (fst u + fst v, snd u + snd v)"

definition vsub :: "point \<Rightarrow> point \<Rightarrow> point" where
  "vsub u v = (fst u - fst v, snd u - snd v)"

definition smul :: "real \<Rightarrow> point \<Rightarrow> point" where
  "smul k v = (k * fst v, k * snd v)"

definition dot :: "point \<Rightarrow> point \<Rightarrow> real" where
  "dot u v = fst u * fst v + snd u * snd v"

text \<open>Lines 138 to 159: the two elbows, then the symmetric path of three segments.\<close>

definition elbow_or_three :: "bounds list \<Rightarrow> point \<Rightarrow> point \<Rightarrow> point list" where
  "elbow_or_three design start endp =
     (let newpt1 = (fst start, snd endp)
      in if no_obstacles design start newpt1 \<and> no_obstacles design newpt1 endp
         then [start, newpt1, endp]
         else
     (let newpt2 = (fst endp, snd start)
      in if no_obstacles design start newpt2 \<and> no_obstacles design newpt2 endp
         then [start, newpt2, endp]
         else
     (let offsetx = \<bar>fst start - fst endp\<bar>;
          offsety = \<bar>snd start - snd endp\<bar>;
          newpt3 = (if offsetx \<ge> offsety
                    then ((fst start + fst endp) / 2, snd start)
                    else (fst start, (snd start + snd endp) / 2));
          newpt4 = (if offsetx \<ge> offsety
                    then ((fst start + fst endp) / 2, snd endp)
                    else (fst endp, (snd start + snd endp) / 2))
      in if no_obstacles design start newpt3
         then (if no_obstacles design newpt3 newpt4
               then (if no_obstacles design newpt4 endp
                     then [start, newpt3, newpt4, endp]
                     else [])
               else [])
         else [])))"

text \<open>Lines 119 to 159. The parameter \<open>end\<close> of the source is \<open>endp\<close> here.\<close>

definition getpts_simple :: "bounds list \<Rightarrow> point \<Rightarrow> point \<Rightarrow> point \<Rightarrow> point list" where
  "getpts_simple design start_direction start endp =
     (if dot start_direction (vsub endp start) \<ge> 0
      then (if fst start = fst endp \<or> snd start = snd endp
            then (if no_obstacles design start endp
                  then [start, endp]
                  else elbow_or_three design start endp)
            else elbow_or_three design start endp)
      else [])"

section \<open>Grid search: \<open>getpts_astar\<close>\<close>

text \<open>
  A key of the priority queue and of \<open>pathmapper\<close> is the tuple
  \<open>(total distance, x, y)\<close>; Python orders tuples lexicographically.
\<close>

type_synonym key = "real \<times> real \<times> real"

definition key_le :: "key \<Rightarrow> key \<Rightarrow> bool" where
  "key_le k k' =
     (case k of (f, x, y) \<Rightarrow> case k' of (f', x', y') \<Rightarrow>
        f < f' \<or> (f = f' \<and> (x < x' \<or> (x = x' \<and> y \<le> y'))))"

text \<open>
  \<open>heapq.heappop\<close> removes and returns the least entry of the heap. The heap is kept
  as the list of its entries; the layout of the binary heap inside the list plays no role
  for what is popped.
\<close>

fun heap_min :: "key \<Rightarrow> key list \<Rightarrow> key" where
  "heap_min k [] = k"
| "heap_min k (k' # ks) = heap_min (if key_le k k' then k else k') ks"

definition heappop :: "key list \<Rightarrow> key \<times> key list" where
  "heappop h = (let k = heap_min (hd h) (tl h) in (k, remove1 k h))"

record astar_state =
  heap :: "key list"
  pathmapper :: "key \<rightharpoonup> real \<times> point list"
  visited :: "point set"

datatype failure = OutOfFuel | KeyError | IndexError

definition manhattan :: "point \<Rightarrow> point \<Rightarrow> real" where
  "manhattan endp pt = \<bar>fst endp - fst pt\<bar> + \<bar>snd endp - snd pt\<bar>"

definition displacements :: "point list" where
  "displacements = [(0, 1), (0, -1), (1, 0), (-1, 0)]"

text \<open>Lines 195 to 200, for a path that is not empty.\<close>

definition travel_direction :: "point \<Rightarrow> point list \<Rightarrow> point" where
  "travel_direction start_direction current_path =
     (if length current_path = 1 then start_direction
      else vsub (last current_path) (last (butlast current_path)))"

text \<open>Lines 203 to 210: the loop over the four unit displacements.\<close>

fun neighbors :: "bounds list \<Rightarrow> real \<Rightarrow> point \<Rightarrow> point \<Rightarrow> point list \<Rightarrow> point list" where
  "neighbors design step_size direction curpt [] = []"
| "neighbors design step_size direction curpt (disp # disps) =
     (if dot disp direction \<ge> 0
      then (let nextpt = vadd curpt (smul step_size disp)
            in if no_obstacles design curpt nextpt
               then nextpt # neighbors design step_size direction curpt disps
               else neighbors design step_size direction curpt disps)
      else neighbors design step_size direction curpt disps)"

text \<open>Lines 215 to 225: the new path, with the collinear tail merged.\<close>

definition extend_path :: "point list \<Rightarrow> point \<Rightarrow> point list" where
  "extend_path current_path neighbor =
     (if length current_path > 1
      then (case last current_path of (x_ult, y_ult) \<Rightarrow>
            case last (butlast current_path) of (x_pen, y_pen) \<Rightarrow>
            case neighbor of (x_cur, y_cur) \<Rightarrow>
              if (y_ult - y_pen) * (x_cur - x_ult) = (y_cur - y_ult) * (x_ult - x_pen)
              then butlast current_path @ [neighbor]
              else current_path @ [neighbor])
      else current_path @ [neighbor])"

text \<open>
  Lines 211 to 231: the loop over the neighbours of the popped point. \<open>Inl\<close> is the
  \<open>return\<close> of line 228, \<open>Inr\<close> the state after the loop has run through.
\<close>

fun visit_neighbors ::
  "point \<Rightarrow> real \<Rightarrow> real \<Rightarrow> point list \<Rightarrow> point list \<Rightarrow> astar_state \<Rightarrow> point list + astar_state" where
  "visit_neighbors endp step_size length_travelled current_path [] st = Inr st"
| "visit_neighbors endp step_size length_travelled current_path (neighbor # rest) st =
     (if neighbor \<in> visited st
      then visit_neighbors endp step_size length_travelled current_path rest st
      else (let new_remaining_dist = manhattan endp neighbor;
                new_length_travelled = length_travelled + step_size;
                new_path = extend_path current_path neighbor
            in if new_remaining_dist < 1 / 10 ^ 8
               then Inl (butlast new_path @ [endp])
               else visit_neighbors endp step_size length_travelled current_path rest
                      (st\<lparr>heap := (new_length_travelled + new_remaining_dist,
                                    fst neighbor, snd neighbor) # heap st,
                          pathmapper := (pathmapper st)
                            ((new_length_travelled + new_remaining_dist,
                              fst neighbor, snd neighbor) \<mapsto> (new_length_travelled, new_path)),
                          visited := insert neighbor (visited st)\<rparr>)))"

text \<open>
  Lines 187 to 232: the \<open>while h\<close> loop. The source sets no bound on the number of
  iterations; the model counts them down from \<open>fuel\<close> and reports \<open>OutOfFuel\<close> when
  the queue is not empty and the count is used up.
\<close>

fun astar_loop ::
  "nat \<Rightarrow> bounds list \<Rightarrow> point \<Rightarrow> point \<Rightarrow> real \<Rightarrow> astar_state \<Rightarrow> failure + point list" where
  "astar_loop 0 design start_direction endp step_size st =
     (if heap st = [] then Inr [] else Inl OutOfFuel)"
| "astar_loop (Suc fuel) design start_direction endp step_size st =
     (if heap st = [] then Inr []
      else (case heappop (heap st) of (k, h) \<Rightarrow>
            case pathmapper st k of
              None \<Rightarrow> Inl KeyError
            | Some (length_travelled, current_path) \<Rightarrow>
                if current_path = [] then Inl IndexError
                else (case visit_neighbors endp step_size length_travelled current_path
                             (neighbors design step_size
                                (travel_direction start_direction current_path)
                                (last current_path) displacements)
                             (st\<lparr>heap := h\<rparr>) of
                        Inl route \<Rightarrow> Inr route
                      | Inr st' \<Rightarrow> astar_loop fuel design start_direction endp step_size st')))"

text \<open>Lines 161 to 232.\<close>

definition getpts_astar ::
  "nat \<Rightarrow> bounds list \<Rightarrow> point \<Rightarrow> point \<Rightarrow> point \<Rightarrow> real \<Rightarrow> failure + point list" where
  "getpts_astar fuel design start_direction start endp step_size =
     (let starting_dist = manhattan endp start
      in astar_loop fuel design start_direction endp step_size
           \<lparr>heap = [(starting_dist, fst start, snd start)],
            pathmapper = [(starting_dist, fst start, snd start) \<mapsto> (starting_dist, [start])],
            visited = {start}\<rparr>)"

section \<open>Route composer: \<open>make\<close>\<close>

text \<open>
  What \<open>make\<close> reads: the two connectors (\<open>middle\<close> and \<open>normal\<close> of a pin) and the
  parsed options. The anchors are the values of the ordered dictionary, in its order.
\<close>

record connector =
  pin_middle :: point
  pin_normal :: point

record parsed_options =
  opt_leadin_start :: real
  opt_leadin_end :: real
  opt_cpw_width :: real
  opt_step_size :: real
  opt_anchors :: "point list"

text \<open>Lines 265 to 269: the body of the loop over the targets.\<close>

definition make_hop ::
  "nat \<Rightarrow> bounds list \<Rightarrow> real \<Rightarrow> point list \<Rightarrow> point \<Rightarrow> failure + point list" where
  "make_hop fuel design step_size pts coord =
     (if pts = [] then Inl IndexError
      else (let easypath = getpts_simple design (vsub coord (last pts)) (last pts) coord
            in if easypath \<noteq> []
               then Inr (pts @ tl easypath)
               else (case getpts_astar fuel design (vsub coord (last pts)) (last pts) coord
                            step_size of
                       Inl e \<Rightarrow> Inl e
                     | Inr path \<Rightarrow> Inr (pts @ tl path))))"

fun make_hops ::
  "nat \<Rightarrow> bounds list \<Rightarrow> real \<Rightarrow> point list \<Rightarrow> point list \<Rightarrow> failure + point list" where
  "make_hops fuel design step_size pts [] = Inr pts"
| "make_hops fuel design step_size pts (coord # coords) =
     (case make_hop fuel design step_size pts coord of
        Inl e \<Rightarrow> Inl e
      | Inr pts' \<Rightarrow> make_hops fuel design step_size pts' coords)"

text \<open>Lines 238 to 271: the vertices \<open>self._pts\<close> that \<open>make\<close> builds.\<close>

definition make ::
  "nat \<Rightarrow> bounds list \<Rightarrow> connector \<Rightarrow> connector \<Rightarrow> parsed_options \<Rightarrow> failure + point list" where
  "make fuel design connector1 connector2 p =
     (let leadstart = opt_leadin_start p;
          leadend = opt_leadin_end p;
          w = opt_cpw_width p;
          n1 = pin_normal connector1;
          n2 = pin_normal connector2;
          m1 = pin_middle connector1;
          m2 = pin_middle connector2
      in case make_hops fuel design (opt_step_size p)
                [m1, vadd m1 (smul (w / 2 + leadstart) n1)]
                (opt_anchors p @ [vadd m2 (smul (w / 2 + leadend) n2)]) of
           Inl e \<Rightarrow> Inl e
         | Inr pts \<Rightarrow> Inr (pts @ [m2]))"



section \<open>Properties of routes\<close>

text \<open>Every segment between two consecutive vertices passes \<open>no_obstacles\<close>.\<close>

fun all_clear :: "bounds list \<Rightarrow> point list \<Rightarrow> bool" where
  "all_clear design [] = True"
| "all_clear design [u] = True"
| "all_clear design (u # v # pts) = (no_obstacles design u v \<and> all_clear design (v # pts))"


section \<open>Invariant of the grid search\<close>

text \<open>
  The predicates of this section are used in the proofs only. A grid point is the start
  point moved by whole multiples of the step size in x and in y.
\<close>

definition on_grid :: "point \<Rightarrow> real \<Rightarrow> point \<Rightarrow> bool" where
  "on_grid start step_size pt \<longleftrightarrow>
     (\<exists>i j :: int. pt = (fst start + step_size * of_int i, snd start + step_size * of_int j))"

text \<open>
  What holds of every path stored in \<open>pathmapper\<close> for a key of the queue: it begins
  with the start point, repeats no vertex, lies within the visited set, and each of its
  vertices is a grid point that is the start point or failed the goal test of line 226.
\<close>

definition good_path :: "point \<Rightarrow> point \<Rightarrow> real \<Rightarrow> point set \<Rightarrow> point list \<Rightarrow> bool" where
  "good_path start endp step_size vis path \<longleftrightarrow>
     path \<noteq> [] \<and> hd path = start \<and> distinct path \<and> set path \<subseteq> vis \<and>
     (\<forall>v \<in> set path. (v = start \<or> 1 / 10 ^ 8 \<le> manhattan endp v) \<and> on_grid start step_size v)"

text \<open>The loop invariant: every key of the queue has such a path in \<open>pathmapper\<close>.\<close>

definition astar_inv :: "point \<Rightarrow> point \<Rightarrow> real \<Rightarrow> astar_state \<Rightarrow> bool" where
  "astar_inv start endp step_size st \<longleftrightarrow>
     (\<forall>k \<in> set (heap st). \<exists>g path. pathmapper st k = Some (g, path) \<and>
        good_path start endp step_size (visited st) path)"

text \<open>
  The shape of a route returned at line 228: a path as above, followed by the end point,
  which replaces a fresh grid point \<open>nb\<close> that passed the goal test.
\<close>

definition snapped_route :: "point \<Rightarrow> point \<Rightarrow> real \<Rightarrow> point list \<Rightarrow> bool" where
  "snapped_route start endp step_size route \<longleftrightarrow>
     (\<exists>pre nb. route = pre @ [endp] \<and> pre \<noteq> [] \<and> hd pre = start \<and> distinct pre \<and>
        (\<forall>v \<in> set pre. v = start \<or> 1 / 10 ^ 8 \<le> manhattan endp v) \<and>
        on_grid start step_size nb \<and> nb \<noteq> start \<and> manhattan endp nb < 1 / 10 ^ 8)"

section \<open>Results on the geometry kernel\<close>






text \<open>
  Claim C1. For two vertical segments the specification asks for: same x-coordinate and
  intersecting closed y-intervals. Line 29 compares with \<open>max(y0_start, y1_end)\<close> where
  \<open>max(y0_start, y0_end)\<close> is meant: the segments from (0,0) to (0,1) and from (0,5) to
  (0,6) are reported as overlapping although their y-intervals are disjoint.
\<close>

theorem overlapping_vertical_disjoint_reported:
  "overlapping (0, 0) (0, 1) (0, 5) (0, 6) \<and> \<not> intervals_meet 0 1 5 6"
  by (simp add: overlapping_def intervals_meet_def)

text \<open>
  Claim C2. The predicate is not symmetric: on the same two vertical segments the answer
  depends on the order in which they are passed.
\<close>

theorem overlapping_not_symmetric:
  "overlapping (0, 0) (0, 1) (0, 5) (0, 6) \<and> \<not> overlapping (0, 5) (0, 6) (0, 0) (0, 1)"
  by (simp add: overlapping_def)

lemmas geometry_eval = box_hit_def overlapping_def one_vertical_def neither_vertical_def
  vadd_def vsub_def smul_def dot_def
lemmas astar_eval = getpts_astar_def heappop_def key_le_def manhattan_def displacements_def
  travel_direction_def extend_path_def
lemmas simple_eval = getpts_simple_def elbow_or_three_def

section \<open>Results on the direct and elbow router\<close>




section \<open>Results on the grid search\<close>

lemma neighbors_sound:
  "nextpt \<in> set (neighbors design step_size direction curpt disps) \<Longrightarrow>
   \<exists>disp. disp \<in> set disps \<and> nextpt = vadd curpt (smul step_size disp) \<and>
          dot disp direction \<ge> 0 \<and> no_obstacles design curpt nextpt"
  by (induction disps) (auto simp: Let_def split: if_splits)






section \<open>Results on the route composer\<close>

lemma elbow_or_three_clear: "all_clear design (elbow_or_three design start endp)"
  by (simp add: elbow_or_three_def Let_def)

lemma getpts_simple_clear: "all_clear design (getpts_simple design start_direction start endp)"
  by (simp add: getpts_simple_def elbow_or_three_clear)

lemma elbow_or_three_hd: "elbow_or_three design start endp \<noteq> [] \<Longrightarrow>
   hd (elbow_or_three design start endp) = start \<and> last (elbow_or_three design start endp) = endp"
  by (simp add: elbow_or_three_def Let_def split: if_splits)

lemma getpts_simple_ends: "getpts_simple design start_direction start endp \<noteq> [] \<Longrightarrow>
   hd (getpts_simple design start_direction start endp) = start \<and>
   last (getpts_simple design start_direction start endp) = endp"
  by (auto simp add: getpts_simple_def elbow_or_three_hd split: if_splits)

text \<open>
  Claim C3, as amended. Every segment of a route returned by \<open>getpts_simple\<close> passes
  \<open>no_obstacles\<close>; so when \<open>make\<close> resolves a hop with \<open>getpts_simple\<close>, every segment
  the hop adds to the route, from the previous last vertex on, passes the test.
\<close>

theorem simple_hops_are_clear:
  "all_clear design (getpts_simple design start_direction start endp) \<and>
   (pts \<noteq> [] \<and> getpts_simple design (vsub coord (last pts)) (last pts) coord \<noteq> [] \<longrightarrow>
     (\<exists>new. make_hop fuel design step_size pts coord = Inr (pts @ new) \<and>
            all_clear design (last pts # new)))"
proof (intro conjI impI)
  show "all_clear design (getpts_simple design start_direction start endp)"
    by (rule getpts_simple_clear)
next
  let ?easy = "getpts_simple design (vsub coord (last pts)) (last pts) coord"
  assume a: "pts \<noteq> [] \<and> ?easy \<noteq> []"
  then have hop: "make_hop fuel design step_size pts coord = Inr (pts @ tl ?easy)"
    by (simp add: make_hop_def)
  from a getpts_simple_ends have "hd ?easy = last pts" by blast
  with a have "last pts # tl ?easy = ?easy" by (metis list.collapse)
  then have "all_clear design (last pts # tl ?easy)"
    using getpts_simple_clear by simp
  with hop show "\<exists>new. make_hop fuel design step_size pts coord = Inr (pts @ new) \<and>
            all_clear design (last pts # new)" by blast
qed

theorem simple_hops_are_clear_witness:
  "[(0, 0), (1, 0)] \<noteq> [] \<and> getpts_simple [(-2, -1, 0, 1)] (vsub (4, 0) (last [(0, 0), (1, 0)]))
      (last [(0, 0), (1, 0)]) (4, 0) = [(1, 0), (4, 0)] \<and>
   (\<exists>new. make_hop 0 [(-2, -1, 0, 1)] 1 [(0, 0), (1, 0)] (4, 0) = Inr ([(0, 0), (1, 0)] @ new) \<and>
          all_clear [(-2, -1, 0, 1)] (last [(0, 0), (1, 0)] # new))"
proof -
  have easy: "getpts_simple [(-2, -1, 0, 1)] (vsub (4, 0) (last [(0, 0), (1, 0)]))
      (last [(0, 0), (1, 0)]) (4, 0) = [(1, 0), (4, 0)]"
    by (simp add: simple_eval geometry_eval)
  with simple_hops_are_clear [of "[(-2, -1, 0, 1)]" "(3, 0)" "(1, 0)" "(4, 0)" "[(0, 0), (1, 0)]" "(4, 0)" 0 1]
  show ?thesis by simp
qed

text \<open>
  The claim C3 as written covers every segment of the composed route. The lead-in segment
  of line 260 is never tested: with the start pin on the edge of a bounding box it touches
  that box. And the segment that the grid search obtains by moving its last point onto the
  end point (line 228) is not tested either.
\<close>

theorem leadin_segment_unchecked_counterexample:
  "make 0 [(-2, -1, 0, 1)]
     \<lparr>pin_middle = (0, 0), pin_normal = (1, 0)\<rparr> \<lparr>pin_middle = (5, 0), pin_normal = (-1, 0)\<rparr>
     \<lparr>opt_leadin_start = 1 / 2, opt_leadin_end = 1 / 2, opt_cpw_width = 1, opt_step_size = 1,
      opt_anchors = []\<rparr> = Inr [(0, 0), (1, 0), (4, 0), (5, 0)] \<and>
   \<not> no_obstacles [(-2, -1, 0, 1)] (0, 0) (1, 0) \<and>
   getpts_astar 1 [(1, 5 / 10 ^ 9, 2, 1)] (1, 5 / 10 ^ 9) (0, 0) (1, 5 / 10 ^ 9) 1 =
     Inr [(0, 0), (1, 5 / 10 ^ 9)] \<and>
   \<not> no_obstacles [(1, 5 / 10 ^ 9, 2, 1)] (0, 0) (1, 5 / 10 ^ 9)"
  by (simp add: make_def make_hop_def simple_eval astar_eval geometry_eval)

text \<open>
  Claim C4, as amended. When \<open>getpts_simple\<close> finds nothing and the queue of
  \<open>getpts_astar\<close> runs empty, the search returns the empty list, the composer adds nothing
  for this hop and goes on to the next target from the unchanged last vertex. The loop of
  the search returns the empty list whenever it is entered with an empty queue.
\<close>

theorem exhausted_hop_is_skipped:
  assumes "pts \<noteq> []"
    and "getpts_simple design (vsub coord (last pts)) (last pts) coord = []"
    and "getpts_astar fuel design (vsub coord (last pts)) (last pts) coord step_size = Inr []"
  shows "make_hop fuel design step_size pts coord = Inr pts \<and>
         make_hops fuel design step_size pts (coord # coords) =
         make_hops fuel design step_size pts coords \<and>
         astar_loop fuel design start_direction endp step_size (st\<lparr>heap := []\<rparr>) = Inr []"
  using assms by (cases fuel) (simp_all add: make_hop_def)

text \<open>
  The claim C4 as written asks for a distinguishable failure. Here the start of the hop is
  enclosed by a bounding box, the queue runs empty in the first iteration, and \<open>make\<close>
  returns an ordinary route that leaves out the lead-out point.
\<close>

theorem exhausted_search_counterexample:
  "getpts_astar 1 [(-1, -1, 1, 1)] (9 / 2, 0) (0, 0) (9 / 2, 0) 2 = Inr [] \<and>
   make 1 [(-1, -1, 1, 1)]
     \<lparr>pin_middle = (-1 / 2, 0), pin_normal = (1, 0)\<rparr> \<lparr>pin_middle = (5, 0), pin_normal = (-1, 0)\<rparr>
     \<lparr>opt_leadin_start = 0, opt_leadin_end = 0, opt_cpw_width = 1, opt_step_size = 2,
      opt_anchors = []\<rparr> = Inr [(-1 / 2, 0), (0, 0), (5, 0)]"
  by (simp add: make_def make_hop_def simple_eval astar_eval geometry_eval)

theorem exhausted_hop_is_skipped_witness:
  "getpts_simple [(-1, -1, 1, 1)] (vsub (9 / 2, 0) (last [(-1 / 2, 0), (0, 0)])) (last [(-1 / 2, 0), (0, 0)]) (9 / 2, 0) = [] \<and>
   getpts_astar 1 [(-1, -1, 1, 1)] (vsub (9 / 2, 0) (last [(-1 / 2, 0), (0, 0)])) (last [(-1 / 2, 0), (0, 0)]) (9 / 2, 0) 2 = Inr [] \<and>
   make_hop 1 [(-1, -1, 1, 1)] 2 [(-1 / 2, 0), (0, 0)] (9 / 2, 0) = Inr [(-1 / 2, 0), (0, 0)] \<and>
   make_hops 1 [(-1, -1, 1, 1)] 2 [(-1 / 2, 0), (0, 0)] [(9 / 2, 0), (0, 3)] =
   make_hops 1 [(-1, -1, 1, 1)] 2 [(-1 / 2, 0), (0, 0)] [(0, 3)]"
proof -
  have s: "getpts_simple [(-1, -1, 1, 1)] (vsub (9 / 2, 0) (last [(-1 / 2, 0), (0, 0)])) (last [(-1 / 2, 0), (0, 0)]) (9 / 2, 0) = []"
    by (simp add: simple_eval geometry_eval)
  have a: "getpts_astar 1 [(-1, -1, 1, 1)] (vsub (9 / 2, 0) (last [(-1 / 2, 0), (0, 0)])) (last [(-1 / 2, 0), (0, 0)]) (9 / 2, 0) 2 = Inr []"
    by (simp add: astar_eval geometry_eval)
  have n: "[(-1 / 2, 0), (0, 0)] \<noteq> ([] :: point list)" by simp
  from exhausted_hop_is_skipped [OF n s a, where coords = "[(0, 3)]"] s a show ?thesis by simp
qed







section \<open>The grid search keeps its invariant\<close>

lemma good_path_mono:
  "good_path start endp step_size vis path \<Longrightarrow> vis \<subseteq> vis' \<Longrightarrow>
   good_path start endp step_size vis' path"
  by (auto simp: good_path_def)

lemma extend_path_cases:
  "extend_path current_path neighbor = current_path @ [neighbor] \<or>
   (length current_path > 1 \<and> extend_path current_path neighbor = butlast current_path @ [neighbor])"
  by (auto simp: extend_path_def split: prod.splits)

lemma butlast_keeps_hd: "length xs > 1 \<Longrightarrow> butlast xs \<noteq> [] \<and> hd (butlast xs) = hd xs"
  by (cases xs) (auto)

lemma good_path_butlast:
  assumes "good_path start endp step_size vis path" and "length path > 1"
  shows "good_path start endp step_size vis (butlast path)"
proof -
  have sub: "set (butlast path) \<subseteq> set path" by (auto dest: in_set_butlastD)
  from assms butlast_keeps_hd [OF assms(2)] sub show ?thesis
    unfolding good_path_def by (auto simp: distinct_butlast)
qed

lemma good_path_snoc:
  assumes "good_path start endp step_size vis path" and "neighbor \<notin> vis"
    and "on_grid start step_size neighbor" and "1 / 10 ^ 8 \<le> manhattan endp neighbor"
  shows "good_path start endp step_size (insert neighbor vis) (path @ [neighbor])"
  using assms unfolding good_path_def by auto

lemma good_path_extend:
  assumes "good_path start endp step_size vis current_path" and "neighbor \<notin> vis"
    and "on_grid start step_size neighbor" and "1 / 10 ^ 8 \<le> manhattan endp neighbor"
  shows "good_path start endp step_size (insert neighbor vis) (extend_path current_path neighbor)"
proof -
  from extend_path_cases [of current_path neighbor] show ?thesis
  proof
    assume "extend_path current_path neighbor = current_path @ [neighbor]"
    with good_path_snoc [OF assms] show ?thesis by simp
  next
    assume c: "length current_path > 1 \<and>
      extend_path current_path neighbor = butlast current_path @ [neighbor]"
    with good_path_butlast [OF assms(1)]
    have "good_path start endp step_size vis (butlast current_path)" by simp
    from good_path_snoc [OF this assms(2-4)] c show ?thesis by simp
  qed
qed

lemma snapped_route_extend:
  assumes "good_path start endp step_size vis current_path" and "neighbor \<notin> vis"
    and "on_grid start step_size neighbor" and "manhattan endp neighbor < 1 / 10 ^ 8"
  shows "snapped_route start endp step_size (butlast (extend_path current_path neighbor) @ [endp])"
proof -
  from assms(1) have "start \<in> vis"
    unfolding good_path_def by (metis hd_in_set subsetD)
  with assms(2) have ne: "neighbor \<noteq> start" by auto
  have "\<exists>pre. butlast (extend_path current_path neighbor) = pre \<and>
          good_path start endp step_size vis pre"
  proof -
    from extend_path_cases [of current_path neighbor] show ?thesis
    proof
      assume "extend_path current_path neighbor = current_path @ [neighbor]"
      with assms(1) show ?thesis by simp
    next
      assume c: "length current_path > 1 \<and>
        extend_path current_path neighbor = butlast current_path @ [neighbor]"
      with good_path_butlast [OF assms(1)] show ?thesis by simp
    qed
  qed
  then obtain pre where pre: "butlast (extend_path current_path neighbor) = pre"
    "good_path start endp step_size vis pre" by blast
  from pre(2) have "pre \<noteq> [] \<and> hd pre = start \<and> distinct pre \<and>
        (\<forall>v \<in> set pre. v = start \<or> 1 / 10 ^ 8 \<le> manhattan endp v)"
    unfolding good_path_def by blast
  with ne assms(3,4) pre(1) show ?thesis
    unfolding snapped_route_def by blast
qed

lemma visit_neighbors_inv:
  assumes "good_path start endp step_size (visited st) current_path"
    and "astar_inv start endp step_size st"
    and "\<forall>n \<in> set nbrs. on_grid start step_size n"
  shows "case visit_neighbors endp step_size length_travelled current_path nbrs st of
           Inl route \<Rightarrow> snapped_route start endp step_size route
         | Inr st' \<Rightarrow> astar_inv start endp step_size st'"
  using assms
proof (induction nbrs arbitrary: st)
  case Nil
  then show ?case by simp
next
  case (Cons neighbor rest)
  from Cons.prems(3) have grid: "on_grid start step_size neighbor"
    and rest: "\<forall>n \<in> set rest. on_grid start step_size n" by simp_all
  show ?case
  proof (cases "neighbor \<in> visited st")
    case True
    with Cons.IH [OF Cons.prems(1,2) rest] show ?thesis by simp
  next
    case False
    show ?thesis
    proof (cases "manhattan endp neighbor < 1 / 10 ^ 8")
      case True
      from snapped_route_extend [OF Cons.prems(1) False grid True] False True
      show ?thesis by (simp add: Let_def)
    next
      case far: False
      let ?k = "(length_travelled + step_size + manhattan endp neighbor, fst neighbor, snd neighbor)"
      let ?np = "extend_path current_path neighbor"
      let ?st = "st\<lparr>heap := ?k # heap st,
                    pathmapper := (pathmapper st)(?k \<mapsto> (length_travelled + step_size, ?np)),
                    visited := insert neighbor (visited st)\<rparr>"
      from far have far': "1 / 10 ^ 8 \<le> manhattan endp neighbor" by simp
      have np: "good_path start endp step_size (insert neighbor (visited st)) ?np"
        by (rule good_path_extend [OF Cons.prems(1) False grid far'])
      have cp: "good_path start endp step_size (visited ?st) current_path"
        using good_path_mono [OF Cons.prems(1)] by auto
      have inv: "astar_inv start endp step_size ?st"
        unfolding astar_inv_def
      proof
        fix k assume k: "k \<in> set (heap ?st)"
        show "\<exists>g path. pathmapper ?st k = Some (g, path) \<and>
                good_path start endp step_size (visited ?st) path"
        proof (cases "k = ?k")
          case True
          with np show ?thesis by simp
        next
          case False
          with k have "k \<in> set (heap st)" by simp
          with Cons.prems(2) obtain g path where
            "pathmapper st k = Some (g, path)" "good_path start endp step_size (visited st) path"
            unfolding astar_inv_def by blast
          with False good_path_mono [of start endp step_size "visited st" path "insert neighbor (visited st)"]
          show ?thesis by auto
        qed
      qed
      from Cons.IH [OF cp inv rest] False far show ?thesis
        by (simp add: Let_def)
    qed
  qed
qed

lemma heap_min_in: "heap_min k ks \<in> set (k # ks)"
  by (induction ks arbitrary: k) (auto split: if_splits)

lemma heappop_in:
  assumes "h \<noteq> []" and "heappop h = (k, h')"
  shows "k \<in> set h \<and> set h' \<subseteq> set h"
proof -
  from assms(1) have "heap_min (hd h) (tl h) \<in> set h"
    using heap_min_in [of "hd h" "tl h"] by simp
  with assms(2) show ?thesis
    using set_remove1_subset [of "heap_min (hd h) (tl h)" h]
    by (auto simp: heappop_def Let_def)
qed

lemma on_grid_start: "on_grid start step_size start"
  unfolding on_grid_def by (intro exI [of _ 0]) simp

lemma on_grid_step:
  assumes "on_grid start step_size curpt" and "disp \<in> set displacements"
  shows "on_grid start step_size (vadd curpt (smul step_size disp))"
proof -
  from assms(1) obtain i j :: int where
    c: "curpt = (fst start + step_size * of_int i, snd start + step_size * of_int j)"
    unfolding on_grid_def by blast
  from assms(2) consider "disp = (0, 1)" | "disp = (0, -1)" | "disp = (1, 0)" | "disp = (-1, 0)"
    by (auto simp: displacements_def)
  then show ?thesis
  proof cases
    case 1
    show ?thesis unfolding on_grid_def
      by (intro exI [of _ i] exI [of _ "j + 1"]) (simp add: c 1 vadd_def smul_def algebra_simps)
  next
    case 2
    show ?thesis unfolding on_grid_def
      by (intro exI [of _ i] exI [of _ "j - 1"]) (simp add: c 2 vadd_def smul_def algebra_simps)
  next
    case 3
    show ?thesis unfolding on_grid_def
      by (intro exI [of _ "i + 1"] exI [of _ j]) (simp add: c 3 vadd_def smul_def algebra_simps)
  next
    case 4
    show ?thesis unfolding on_grid_def
      by (intro exI [of _ "i - 1"] exI [of _ j]) (simp add: c 4 vadd_def smul_def algebra_simps)
  qed
qed

lemma neighbors_on_grid:
  assumes "on_grid start step_size curpt"
  shows "\<forall>n \<in> set (neighbors design step_size direction curpt displacements).
           on_grid start step_size n"
proof
  fix n assume "n \<in> set (neighbors design step_size direction curpt displacements)"
  from neighbors_sound [OF this] obtain disp where
    "disp \<in> set displacements" "n = vadd curpt (smul step_size disp)" by blast
  with on_grid_step [OF assms] show "on_grid start step_size n" by simp
qed



lemma astar_loop_no_exception:
  assumes "astar_inv start endp step_size st"
  shows "astar_loop fuel design start_direction endp step_size st \<noteq> Inl KeyError \<and>
         astar_loop fuel design start_direction endp step_size st \<noteq> Inl IndexError"
  using assms
proof (induction fuel arbitrary: st)
  case 0
  then show ?case by simp
next
  case (Suc fuel)
  show ?case
  proof (cases "heap st = []")
    case True
    then show ?thesis by simp
  next
    case False
    obtain k h where pop: "heappop (heap st) = (k, h)" by (cases "heappop (heap st)")
    from heappop_in [OF False pop] have k: "k \<in> set (heap st)" and h: "set h \<subseteq> set (heap st)"
      by simp_all
    from Suc.prems(1) k obtain g current_path where
      pm: "pathmapper st k = Some (g, current_path)"
      and gp: "good_path start endp step_size (visited st) current_path"
      unfolding astar_inv_def by blast
    from gp have ne: "current_path \<noteq> []" and lg: "on_grid start step_size (last current_path)"
      unfolding good_path_def by auto
    let ?st = "st\<lparr>heap := h\<rparr>"
    let ?nbrs = "neighbors design step_size (travel_direction start_direction current_path)
                   (last current_path) displacements"
    from Suc.prems(1) h have inv: "astar_inv start endp step_size ?st"
      unfolding astar_inv_def by auto
    from gp have gp': "good_path start endp step_size (visited ?st) current_path" by simp
    note vis = visit_neighbors_inv [OF gp' inv
        neighbors_on_grid [OF lg, where design = design
          and direction = "travel_direction start_direction current_path"],
        where length_travelled = g]
    show ?thesis
    proof (cases "visit_neighbors endp step_size g current_path ?nbrs ?st")
      case (Inl r)
      with False pop pm ne show ?thesis by simp
    next
      case (Inr st')
      with vis have inv': "astar_inv start endp step_size st'" by simp
      from Suc.IH [OF inv'] False pop pm ne Inr show ?thesis by simp
    qed
  qed
qed


text \<open>
  So the two failures that the model carries for a missing key and for an empty path
  never show: \<open>getpts_astar\<close> returns a route or runs out of fuel.
\<close>

lemma getpts_astar_no_exception:
  "getpts_astar fuel design start_direction start endp step_size \<noteq> Inl KeyError \<and>
   getpts_astar fuel design start_direction start endp step_size \<noteq> Inl IndexError"
proof -
  let ?k = "(manhattan endp start, fst start, snd start)"
  let ?st = "\<lparr>heap = [?k], pathmapper = [?k \<mapsto> (manhattan endp start, [start])],
              visited = {start}\<rparr>"
  have "good_path start endp step_size {start} [start]"
    by (simp add: good_path_def on_grid_start)
  then have "astar_inv start endp step_size ?st"
    by (simp add: astar_inv_def)
  from astar_loop_no_exception [OF this] show ?thesis
    by (simp add: getpts_astar_def Let_def)
qed





section \<open>Halving a blocked axis-aligned segment\<close>


























section \<open>Results on the vertices of a route\<close>







end
